theory Spec2Isabelle
  imports Main "HOL-Library.AList" "HOL-Library.Sublist"
begin

section \<open>Values handled by \<open>scripts/generate_translations.py\<close>\<close>

text \<open>
  The script works on what \<open>json.load\<close> returns: \<open>None\<close>, booleans, integers, floats,
  strings, lists and dictionaries with string keys. Floats are never inspected by the
  script, so their type is left opaque. A dictionary is an association list in insertion
  order; \<open>map_of\<close> is the lookup \<open>d[k]\<close> and \<open>AList.update\<close> is the assignment
  \<open>d[k] = v\<close> (an existing key keeps its place, a new key goes to the end).
  Python's \<open>None\<close> and the JSON value \<open>null\<close> are the same object, \<open>JNull\<close>.
  Strings are byte strings; the separator \<open>.\<close> and the tag \<open>[DE] \<close> are ASCII.
\<close>

typedecl pyfloat

datatype json =
    JNull
  | JBool bool
  | JInt int
  | JFloat pyfloat
  | JStr string
  | JList "json list"
  | JDict "(string \<times> json) list"

datatype py_error = TypeError | KeyError | IndexError | JSONDecodeError

type_synonym dict = "(string \<times> json) list"

section \<open>Nested-path accessor and mutator\<close>

text \<open>\<open>key.split(".")\<close>: every dot separates, the result is never empty.\<close>

fun split_dot :: "string \<Rightarrow> string list" where
  "split_dot [] = [[]]"
| "split_dot (c # cs) =
     (if c = CHR ''.'' then [] # split_dot cs
      else (case split_dot cs of
              [] \<Rightarrow> [[c]]
            | p # ps \<Rightarrow> (c # p) # ps))"

text \<open>
  The inverse of \<open>split_dot\<close>, Python's \<open>".".join(parts)\<close>; it only serves to say what
  splitting means.
\<close>

fun join_dot :: "string list \<Rightarrow> string" where
  "join_dot [] = []"
| "join_dot [p] = p"
| "join_dot (p # q # ps) = p @ CHR ''.'' # join_dot (q # ps)"

text \<open>
  The loop of \<open>get_nested\<close>: \<open>for part in parts\<close>, descending while the current node is
  a dictionary holding \<open>part\<close>, returning \<open>None\<close> otherwise.
\<close>

fun get_loop :: "json \<Rightarrow> string list \<Rightarrow> json" where
  "get_loop data [] = data"
| "get_loop data (part # parts) =
     (case data of
        JDict d \<Rightarrow> (case map_of d part of
                      Some v \<Rightarrow> get_loop v parts
                    | None \<Rightarrow> JNull)
      | _ \<Rightarrow> JNull)"

definition get_nested :: "json \<Rightarrow> string \<Rightarrow> json" where
  "get_nested data key = get_loop data (split_dot key)"

text \<open>
  The reading of a path as the specification words it: descend one segment at a time;
  the result is the value found, or absent (\<open>None\<close>) the first time a segment is missing
  or the current node is not a mapping. Unlike \<open>get_nested\<close> it tells a stored \<open>null\<close>
  (\<open>Some JNull\<close>) from a missing path (\<open>None\<close>).
\<close>

fun path_value :: "json \<Rightarrow> string list \<Rightarrow> json option" where
  "path_value t [] = Some t"
| "path_value (JDict d) (p # ps) =
     (case map_of d p of None \<Rightarrow> None | Some v \<Rightarrow> path_value v ps)"
| "path_value _ (p # ps) = None"

text \<open>
  The operations of Python on a value of unknown type that \<open>set_nested\<close> uses with a
  string key: \<open>key in data\<close>, \<open>data[key]\<close> and \<open>data[key] = v\<close>. On a dictionary they
  are the lookup and the update. A list answers \<open>in\<close> by comparing its elements with the
  key, a string by searching the key as a substring; both refuse a string index. The
  other values support none of the three.
\<close>

fun py_contains :: "json \<Rightarrow> string \<Rightarrow> py_error + bool" where
  "py_contains (JDict d) k = Inr (map_of d k \<noteq> None)"
| "py_contains (JList xs) k = Inr (JStr k \<in> set xs)"
| "py_contains (JStr s) k = Inr (sublist k s)"
| "py_contains _ k = Inl TypeError"

fun py_getitem :: "json \<Rightarrow> string \<Rightarrow> py_error + json" where
  "py_getitem (JDict d) k = (case map_of d k of None \<Rightarrow> Inl KeyError | Some v \<Rightarrow> Inr v)"
| "py_getitem _ k = Inl TypeError"

fun py_setitem :: "json \<Rightarrow> string \<Rightarrow> json \<Rightarrow> py_error + json" where
  "py_setitem (JDict d) k v = Inr (JDict (AList.update k v d))"
| "py_setitem _ k v = Inl TypeError"

fun is_dict :: "json \<Rightarrow> bool" where
  "is_dict (JDict d) = True"
| "is_dict _ = False"

text \<open>Sequencing of statements that may raise: the first exception ends the run.\<close>

fun and_then :: "py_error + 'a \<Rightarrow> ('a \<Rightarrow> py_error + 'b) \<Rightarrow> py_error + 'b" where
  "and_then (Inl e) f = Inl e"
| "and_then (Inr x) f = f x"

text \<open>
  The body of \<open>set_nested\<close>, on the current node, the current segment and the segments
  after it. With segments left, the loop body runs: the test
  \<open>part not in data or not isinstance(data[part], dict)\<close>, the assignment of a fresh
  dictionary, the descent into \<open>data[part]\<close>. The node descended into is the object
  stored in its parent and is changed in place; the model stores the changed node back.
  On the last segment the value is assigned only if the key is not in the node.
\<close>

fun set_loop :: "json \<Rightarrow> string \<Rightarrow> string list \<Rightarrow> json \<Rightarrow> py_error + json" where
  "set_loop data last_key [] v =
     and_then (py_contains data last_key) (\<lambda>present.
       if \<not> present then py_setitem data last_key v else Inr data)"
| "set_loop data part (q # qs) v =
     and_then (py_contains data part) (\<lambda>present.
     and_then (if \<not> present then Inr True
               else and_then (py_getitem data part) (\<lambda>x. Inr (\<not> is_dict x))) (\<lambda>fresh.
     and_then (if fresh then py_setitem data part (JDict []) else Inr data) (\<lambda>data1.
     and_then (py_getitem data1 part) (\<lambda>sub.
     and_then (set_loop sub q qs v) (\<lambda>sub'.
       py_setitem data1 part sub')))))"

text \<open>\<open>parts[-1]\<close> raises on an empty list; \<open>split\<close> never returns one.\<close>

definition set_nested :: "json \<Rightarrow> string \<Rightarrow> json \<Rightarrow> py_error + json" where
  "set_nested data key v =
     (case split_dot key of
        [] \<Rightarrow> Inl IndexError
      | p # ps \<Rightarrow> set_loop data p ps v)"

text \<open>
  What the loop computes when the node is a dictionary (shown below, \<open>set_loop_dict\<close>):
  no exception is possible, and the result is the dictionary rebuilt along the path.
\<close>

fun set_dict :: "dict \<Rightarrow> string \<Rightarrow> string list \<Rightarrow> json \<Rightarrow> dict" where
  "set_dict d last_key [] v =
     (if map_of d last_key = None then AList.update last_key v d else d)"
| "set_dict d part (q # qs) v =
     AList.update part
       (JDict (set_dict (case map_of d part of Some (JDict c) \<Rightarrow> c | _ \<Rightarrow> []) q qs v)) d"

section \<open>Files\<close>

text \<open>
  The script reads and writes five files at fixed paths. A file that \<open>json.load\<close> reads
  is either not a JSON document (\<open>Unparsable\<close>: \<open>json.load\<close> raises) or a document,
  given by the value it denotes; \<open>json.dump\<close> writes the document of a value. How the
  document is laid out (\<open>indent=4\<close>, and \<open>sort_keys=True\<close>, which only fixes the order in
  which the entries of a dictionary are written) is not represented: a file written holds
  the value that was in memory. The key list is a text file, given by its lines. A path
  without a file is \<open>None\<close>. Failures of the operating system other than a missing file,
  and the messages printed for the operator, are not represented.
\<close>

datatype content = Unparsable | Parsed json

record files =
  backend_en :: "content option"         \<comment> \<open>\<open>locales/en/out.gotext.json\<close>\<close>
  backend_de :: "content option"         \<comment> \<open>\<open>locales/de/messages.gotext.json\<close>\<close>
  keys_txt :: "string list option"    \<comment> \<open>\<open>ui/src/locales/keys_found.txt\<close>\<close>
  frontend_en :: "content option"        \<comment> \<open>\<open>ui/src/locales/en.json\<close>\<close>
  frontend_de :: "content option"        \<comment> \<open>\<open>ui/src/locales/de.json\<close>\<close>

section \<open>Backend catalog\<close>

text \<open>
  \<open>for msg in data["messages"]\<close> iterates a list over its elements, a dictionary over
  its keys and a string over its characters; the other values are not iterable.
\<close>

fun py_iter :: "json \<Rightarrow> py_error + json list" where
  "py_iter (JList xs) = Inr xs"
| "py_iter (JDict d) = Inr (map (\<lambda>kv. JStr (fst kv)) d)"
| "py_iter (JStr s) = Inr (map (\<lambda>c. JStr [c]) s)"
| "py_iter _ = Inl TypeError"

text \<open>
  The replacement field \<open>{msg['message']}\<close> of the f-string: a string is inserted as it
  is, any other value through \<open>str()\<close>, which is the parameter \<open>str_of\<close> here.
\<close>

fun py_format :: "(json \<Rightarrow> string) \<Rightarrow> json \<Rightarrow> string" where
  "py_format str_of (JStr s) = s"
| "py_format str_of v = str_of v"

text \<open>The loop body: \<open>msg["translation"] = f"[DE] {msg['message']}"\<close>.\<close>

definition translate_msg :: "(json \<Rightarrow> string) \<Rightarrow> json \<Rightarrow> py_error + json" where
  "translate_msg str_of msg =
     and_then (py_getitem msg ''message'') (\<lambda>m.
       py_setitem msg ''translation'' (JStr (''[DE] '' @ py_format str_of m)))"

fun translate_all :: "(json \<Rightarrow> string) \<Rightarrow> json list \<Rightarrow> py_error + json list" where
  "translate_all str_of [] = Inr []"
| "translate_all str_of (msg # msgs) =
     and_then (translate_msg str_of msg) (\<lambda>msg'.
     and_then (translate_all str_of msgs) (\<lambda>msgs'.
       Inr (msg' # msgs')))"

text \<open>
  Lines 16 to 19 of the script. The messages of a list are changed in place, so the list
  stored under \<open>messages\<close> holds the changed messages afterwards. The items of a dictionary
  or a string are strings, on which the loop body raises.
\<close>

definition translate_catalog :: "(json \<Rightarrow> string) \<Rightarrow> json \<Rightarrow> py_error + json" where
  "translate_catalog str_of data =
     and_then (py_setitem data ''language'' (JStr ''de'')) (\<lambda>data1.
     and_then (py_getitem data1 ''messages'') (\<lambda>msgs.
     and_then (py_iter msgs) (\<lambda>items.
     and_then (translate_all str_of items) (\<lambda>items'.
       case msgs of
         JList xs \<Rightarrow> py_setitem data1 ''messages'' (JList items')
       | _ \<Rightarrow> Inr data1))))"

text \<open>
  \<open>process_backend\<close> returns the files as they are when it ends, and the exception it
  ended with, if any. The output is written after the loop, by the last statement that
  can change a file.
\<close>

definition process_backend :: "(json \<Rightarrow> string) \<Rightarrow> files \<Rightarrow> files \<times> py_error option" where
  "process_backend str_of fs =
     (case backend_en fs of
        None \<Rightarrow> (fs, None)
      | Some Unparsable \<Rightarrow> (fs, Some JSONDecodeError)
      | Some (Parsed data) \<Rightarrow>
          (case translate_catalog str_of data of
             Inl e \<Rightarrow> (fs, Some e)
           | Inr out \<Rightarrow> (fs\<lparr>backend_de := Some (Parsed out)\<rparr>, None)))"

text \<open>Reading a catalog: a field of a record, and the list of its messages.\<close>

fun field :: "json \<Rightarrow> string \<Rightarrow> json option" where
  "field (JDict d) k = map_of d k"
| "field _ k = None"

definition messages_of :: "json \<Rightarrow> json list" where
  "messages_of data = (case field data ''messages'' of Some (JList ms) \<Rightarrow> ms | _ \<Rightarrow> [])"

text \<open>
  A valid catalog: a record with a \<open>language\<close> field and a list of messages, each a
  record with a \<open>message\<close> field.
\<close>

definition valid_message :: "json \<Rightarrow> bool" where
  "valid_message m = (is_dict m \<and> field m ''message'' \<noteq> None)"

definition valid_catalog :: "json \<Rightarrow> bool" where
  "valid_catalog data =
     (is_dict data \<and> field data ''language'' \<noteq> None \<and>
      (case field data ''messages'' of
         Some (JList ms) \<Rightarrow> list_all valid_message ms
       | _ \<Rightarrow> False))"

text \<open>
  The catalogs on which the script raises: not a record, no \<open>messages\<close> field, or a
  \<open>messages\<close> field that cannot be iterated or has an item that is not a record with a
  \<open>message\<close> field. A missing \<open>language\<close> field is not among them.
\<close>

fun bad_messages :: "json \<Rightarrow> bool" where
  "bad_messages (JList ms) = (\<not> list_all valid_message ms)"
| "bad_messages (JDict d) = (d \<noteq> [])"
| "bad_messages (JStr s) = (s \<noteq> [])"
| "bad_messages _ = True"

definition malformed_catalog :: "json \<Rightarrow> bool" where
  "malformed_catalog data =
     (\<not> is_dict data \<or>
      (case field data ''messages'' of None \<Rightarrow> True | Some ms \<Rightarrow> bad_messages ms))"

section \<open>Frontend key tree\<close>

text \<open>
  \<open>str.strip()\<close>, \<open>str.replace("_", " ")\<close> and \<open>str.title()\<close> on ASCII text: the white
  space and the letters beyond ASCII that Python also knows are not recognised here.
  \<open>title\<close> puts a letter in upper case when the character before it is not a letter and
  in lower case when it is.
\<close>

definition is_space :: "char \<Rightarrow> bool" where
  "is_space c = (let n = (of_char c :: nat) in (9 \<le> n \<and> n \<le> 13) \<or> (28 \<le> n \<and> n \<le> 32))"

definition py_strip :: "string \<Rightarrow> string" where
  "py_strip s = rev (dropWhile is_space (rev (dropWhile is_space s)))"

definition is_lower :: "char \<Rightarrow> bool" where
  "is_lower c = (let n = (of_char c :: nat) in 97 \<le> n \<and> n \<le> 122)"

definition is_upper :: "char \<Rightarrow> bool" where
  "is_upper c = (let n = (of_char c :: nat) in 65 \<le> n \<and> n \<le> 90)"

definition to_upper :: "char \<Rightarrow> char" where
  "to_upper c = (if is_lower c then char_of (of_char c - (32 :: nat)) else c)"

definition to_lower :: "char \<Rightarrow> char" where
  "to_lower c = (if is_upper c then char_of (of_char c + (32 :: nat)) else c)"

fun title_from :: "bool \<Rightarrow> string \<Rightarrow> string" where
  "title_from previous_is_cased [] = []"
| "title_from previous_is_cased (c # cs) =
     (if previous_is_cased then to_lower c else to_upper c)
       # title_from (is_lower c \<or> is_upper c) cs"

definition py_title :: "string \<Rightarrow> string" where
  "py_title s = title_from False s"

definition py_replace_underscore :: "string \<Rightarrow> string" where
  "py_replace_underscore s = map (\<lambda>c. if c = CHR ''_'' then CHR '' '' else c) s"

text \<open>\<open>keys = [line.strip() for line in f if line.strip()]\<close>\<close>

definition read_keys :: "string list \<Rightarrow> string list" where
  "read_keys lines = map py_strip (filter (\<lambda>line. py_strip line \<noteq> []) lines)"

text \<open>
  \<open>key.split(".")[-1].replace("_", " ").title()\<close>; the list of segments is never empty,
  so its last element exists.
\<close>

definition display_name :: "string \<Rightarrow> string" where
  "display_name key = py_title (py_replace_underscore (last (split_dot key)))"

text \<open>
  One pass of the loop over the keys, on the source tree \<open>en_data\<close> and the target tree
  \<open>de_data\<close>; \<open>existing_val is None\<close> is the comparison with \<open>JNull\<close>.
\<close>

definition key_step :: "json \<Rightarrow> json \<Rightarrow> string \<Rightarrow> py_error + json \<times> json" where
  "key_step en_data de_data key =
     (let existing_val = get_nested en_data key;
          display = display_name key
      in and_then
           (if existing_val = JNull
            then and_then (set_nested en_data key (JStr display)) (\<lambda>en_data'.
                   Inr (en_data', JStr display))
            else Inr (en_data, existing_val))
           (\<lambda>(en_data', en_val).
              case en_val of
                JStr s \<Rightarrow>
                  and_then (set_nested de_data key (JStr (''[DE] '' @ s))) (\<lambda>de_data'.
                    Inr (en_data', de_data'))
              | _ \<Rightarrow> Inr (en_data', de_data)))"

fun process_keys :: "json \<Rightarrow> json \<Rightarrow> string list \<Rightarrow> py_error + json \<times> json" where
  "process_keys en_data de_data [] = Inr (en_data, de_data)"
| "process_keys en_data de_data (key # keys) =
     and_then (key_step en_data de_data key) (\<lambda>(en_data', de_data').
       process_keys en_data' de_data' keys)"

text \<open>
  The source tree the run starts from: the document in the file, or an empty dictionary
  when there is no file or \<open>json.load\<close> raises (\<open>except: pass\<close>).
\<close>

definition load_en :: "files \<Rightarrow> json" where
  "load_en fs = (case frontend_en fs of Some (Parsed v) \<Rightarrow> v | _ \<Rightarrow> JDict [])"

definition process_frontend :: "files \<Rightarrow> files \<times> py_error option" where
  "process_frontend fs =
     (case keys_txt fs of
        None \<Rightarrow> (fs, None)
      | Some lines \<Rightarrow>
          (case process_keys (load_en fs) (JDict []) (read_keys lines) of
             Inl e \<Rightarrow> (fs, Some e)
           | Inr (en_data, de_data) \<Rightarrow>
               (fs\<lparr>frontend_en := Some (Parsed en_data),
                   frontend_de := Some (Parsed de_data)\<rparr>, None)))"

section \<open>Splitting a path\<close>

lemma split_dot_nonempty: "split_dot key \<noteq> []"
  by (induction key) (auto split: list.splits)

lemma split_dot_no_dot: "p \<in> set (split_dot key) \<Longrightarrow> CHR ''.'' \<notin> set p"
  by (induction key arbitrary: p) (auto split: list.splits if_splits)

lemma join_dot_Cons: "ps \<noteq> [] \<Longrightarrow> join_dot (p # ps) = p @ CHR ''.'' # join_dot ps"
  by (cases ps) auto

lemma join_dot_Cons_Cons: "join_dot ((c # p) # ps) = c # join_dot (p # ps)"
  by (cases ps) auto

lemma join_split_dot: "join_dot (split_dot key) = key"
proof (induction key)
  case Nil
  show ?case by simp
next
  case (Cons c cs)
  show ?case
  proof (cases "c = CHR ''.''")
    case True
    with Cons show ?thesis
      by (simp add: join_dot_Cons split_dot_nonempty)
  next
    case False
    obtain p ps where sp: "split_dot cs = p # ps"
      using split_dot_nonempty [of cs] by (cases "split_dot cs") auto
    with Cons False show ?thesis
      by (simp add: join_dot_Cons_Cons)
  qed
qed

section \<open>Lookup\<close>

lemma get_loop_path_value:
  "get_loop data parts = (case path_value data parts of None \<Rightarrow> JNull | Some v \<Rightarrow> v)"
  by (induction data parts rule: path_value.induct) (auto split: option.splits)

lemma path_value_take_None:
  "path_value t (take n ps) = None \<Longrightarrow> path_value t ps = None"
proof (induction ps arbitrary: t n)
  case Nil
  then show ?case by simp
next
  case (Cons p ps)
  show ?case
  proof (cases n)
    case 0
    with Cons.prems show ?thesis by simp
  next
    case (Suc m)
    show ?thesis
    proof (cases t)
      case (JDict d)
      with Cons.prems Suc Cons.IH [of _ m] show ?thesis
        by (auto split: option.splits)
    qed simp_all
  qed
qed

text \<open>
  C8. \<open>get_nested\<close> splits the path on the dots (the segments are never none, hold no
  dot, and joined by dots give the path back), descends one segment at a time and returns
  the value found, or the absent result \<open>None\<close> as soon as a segment is missing or the
  node reached is not a mapping: if the segments up to some position do not lead to a
  value, the result is \<open>None\<close> whatever follows. The function is total: a missing path is
  an ordinary result, not an exception.
\<close>

theorem get_nested_spec:
  "split_dot key \<noteq> []
   \<and> join_dot (split_dot key) = key
   \<and> list_all (\<lambda>p. CHR ''.'' \<notin> set p) (split_dot key)
   \<and> get_nested data key =
       (case path_value data (split_dot key) of None \<Rightarrow> JNull | Some v \<Rightarrow> v)
   \<and> (\<forall>n. path_value data (take n (split_dot key)) = None \<longrightarrow> get_nested data key = JNull)"
proof -
  have "get_nested data key = JNull" if "path_value data (take n (split_dot key)) = None" for n
    using path_value_take_None [OF that] by (simp add: get_nested_def get_loop_path_value)
  then show ?thesis
    unfolding list_all_iff
    using split_dot_nonempty join_split_dot split_dot_no_dot get_loop_path_value get_nested_def
    by metis
qed

theorem get_nested_spec_witness:
  "path_value (JDict [(''home'', JStr ''Welcome'')]) (take 2 (split_dot ''home.title.x'')) = None
   \<and> get_nested (JDict [(''home'', JStr ''Welcome'')]) ''home.title.x'' = JNull
   \<and> get_nested (JDict [(''home'', JStr ''Welcome'')]) ''home'' = JStr ''Welcome''"
proof -
  have h: "path_value (JDict [(''home'', JStr ''Welcome'')]) (take 2 (split_dot ''home.title.x''))
      = None"
    by simp
  have g: "get_nested (JDict [(''home'', JStr ''Welcome'')]) ''home'' = JStr ''Welcome''"
    using get_nested_spec [of "''home''" "JDict [(''home'', JStr ''Welcome'')]"] by simp
  from get_nested_spec [of "''home.title.x''" "JDict [(''home'', JStr ''Welcome'')]"] h g
  show ?thesis
    by blast
qed

section \<open>Assignment along a path\<close>

lemma set_loop_dict: "set_loop (JDict d) p ps v = Inr (JDict (set_dict d p ps v))"
proof (induction ps arbitrary: d p)
  case Nil
  show ?case by simp
next
  case (Cons q qs)
  show ?case
  proof (cases "map_of d p")
    case None
    then show ?thesis by (simp add: Cons.IH update_conv')
  next
    case (Some x)
    then show ?thesis
      by (cases x) (simp_all add: Cons.IH update_conv')
  qed
qed

lemma set_nested_dict:
  "split_dot key = p # ps \<Longrightarrow> set_nested (JDict d) key v = Inr (JDict (set_dict d p ps v))"
  by (simp add: set_nested_def set_loop_dict)

lemma set_dict_present:
  "path_value (JDict d) (p # ps) \<noteq> None \<Longrightarrow> set_dict d p ps v = d"
proof (induction ps arbitrary: d p)
  case Nil
  then show ?case by (auto split: option.splits)
next
  case (Cons q qs)
  from Cons.prems obtain x where x: "map_of d p = Some x" "path_value x (q # qs) \<noteq> None"
    by (auto split: option.splits)
  then obtain c where c: "x = JDict c"
    by (cases x) auto
  with x Cons.IH [of c q] show ?case
    by (simp add: update_triv)
qed

lemma path_value_set_dict:
  "path_value (JDict (set_dict d p ps v)) (p # ps) =
     Some (case path_value (JDict d) (p # ps) of None \<Rightarrow> v | Some x \<Rightarrow> x)"
proof (induction ps arbitrary: d p)
  case Nil
  show ?case by (auto simp: update_conv' split: option.splits)
next
  case (Cons q qs)
  define c where "c = (case map_of d p of Some (JDict c) \<Rightarrow> c | _ \<Rightarrow> [])"
  have below: "path_value (JDict d) (p # q # qs) = path_value (JDict c) (q # qs)"
    if "map_of d p = Some (JDict c')" for c'
    using that by (simp add: c_def)
  have fresh: "path_value (JDict d) (p # q # qs) = None \<and> c = []"
    if "\<nexists>c'. map_of d p = Some (JDict c')"
  proof (cases "map_of d p")
    case None
    then show ?thesis by (simp add: c_def)
  next
    case (Some x)
    with that show ?thesis by (cases x) (simp_all add: c_def)
  qed
  have "path_value (JDict (set_dict d p (q # qs) v)) (p # q # qs) =
          path_value (JDict (set_dict c q qs v)) (q # qs)"
    by (simp add: update_conv' c_def)
  also have "\<dots> = Some (case path_value (JDict c) (q # qs) of None \<Rightarrow> v | Some x \<Rightarrow> x)"
    by (rule Cons.IH)
  also have "\<dots> = Some (case path_value (JDict d) (p # q # qs) of None \<Rightarrow> v | Some x \<Rightarrow> x)"
  proof (cases "\<exists>c'. map_of d p = Some (JDict c')")
    case True
    then show ?thesis using below by auto
  next
    case False
    then have "path_value (JDict d) (p # q # qs) = None" "c = []"
      using fresh by auto
    then show ?thesis by (cases qs) simp_all
  qed
  finally show ?case .
qed

lemma get_loop_present: "get_loop data parts \<noteq> JNull \<Longrightarrow> path_value data parts \<noteq> None"
  by (simp add: get_loop_path_value split: option.splits)

text \<open>
  C10. If \<open>get_nested\<close> finds a value that is not \<open>None\<close> under the path, \<open>set_nested\<close>
  returns normally and leaves the whole tree as it was.
\<close>

theorem set_nested_existing_unchanged:
  "get_nested tree key \<noteq> JNull \<Longrightarrow> set_nested tree key v = Inr tree"
proof -
  assume found: "get_nested tree key \<noteq> JNull"
  obtain p ps where sp: "split_dot key = p # ps"
    using split_dot_nonempty [of key] by (cases "split_dot key") auto
  from found sp obtain d where d: "tree = JDict d"
    by (cases tree) (auto simp: get_nested_def)
  from found sp d have "path_value (JDict d) (p # ps) \<noteq> None"
    using get_loop_present [of tree "p # ps"] by (simp add: get_nested_def)
  then have "set_dict d p ps v = d"
    by (rule set_dict_present)
  with sp d show ?thesis
    by (simp add: set_nested_dict)
qed

theorem set_nested_existing_unchanged_witness:
  "get_nested (JDict [(''home'', JDict [(''title'', JStr ''Welcome'')])]) ''home.title'' \<noteq> JNull
   \<and> set_nested (JDict [(''home'', JDict [(''title'', JStr ''Welcome'')])]) ''home.title''
         (JStr ''Title'')
       = Inr (JDict [(''home'', JDict [(''title'', JStr ''Welcome'')])])"
proof -
  have h: "get_nested (JDict [(''home'', JDict [(''title'', JStr ''Welcome'')])]) ''home.title''
             \<noteq> JNull"
    by (simp add: get_nested_def)
  from set_nested_existing_unchanged [OF h] h show ?thesis
    by blast
qed

lemma path_value_prefix_dict:
  "path_value t (r @ a # s) = Some x \<Longrightarrow> \<exists>c. path_value t r = Some (JDict c)"
proof (induction r arbitrary: t)
  case Nil
  then show ?case by (cases t) auto
next
  case (Cons b r)
  then show ?case by (cases t) (auto split: option.splits)
qed

lemma path_value_leaf: "path_value y r = Some x \<Longrightarrow> \<not> is_dict y \<Longrightarrow> r = []"
  by (cases r; cases y) auto

lemma set_dict_frame:
  "path_value (JDict d) r = Some x \<Longrightarrow> \<not> is_dict x \<Longrightarrow> \<not> strict_prefix r (p # ps)
   \<Longrightarrow> path_value (JDict (set_dict d p ps v)) r = Some x"
proof (induction ps arbitrary: d p r)
  case Nil
  then show ?case
    by (cases r) (auto simp: update_conv' split: option.splits)
next
  case (Cons q qs)
  show ?case
  proof (cases r)
    case Nil
    with Cons.prems show ?thesis by simp
  next
    case r: (Cons a r')
    show ?thesis
    proof (cases "a = p")
      case False
      with Cons.prems r show ?thesis by (simp add: update_conv')
    next
      case True
      from Cons.prems r True obtain y where y: "map_of d p = Some y" "path_value y r' = Some x"
        by (auto split: option.splits)
      from Cons.prems(3) r True have np: "\<not> strict_prefix r' (q # qs)"
        by simp
      show ?thesis
      proof (cases y)
        case (JDict c)
        with y np Cons.prems(2) have "path_value (JDict (set_dict c q qs v)) r' = Some x"
          by (intro Cons.IH) simp_all
        with y JDict r True show ?thesis by (simp add: update_conv')
      qed (use y np path_value_leaf [of y r' x] in auto)
    qed
  qed
qed

text \<open>
  C2, as the code has it. On a mapping tree \<open>set_nested\<close> returns normally. Afterwards
  the last segment of the path holds the value that was stored there before, if there was
  one (a stored \<open>null\<close> included: it is not overwritten), and the new value otherwise.
  Every position before the last one holds a mapping. Every value of the tree that is not
  a mapping is still where it was, unless it sat at a position before the last one of the
  path: such a value is the one the loop replaces by a fresh mapping.
\<close>

theorem set_nested_write_once:
  "\<exists>d'. set_nested (JDict d) key v = Inr (JDict d')
     \<and> path_value (JDict d') (split_dot key) =
         Some (case path_value (JDict d) (split_dot key) of None \<Rightarrow> v | Some x \<Rightarrow> x)
     \<and> (\<forall>r. strict_prefix r (split_dot key) \<longrightarrow> (\<exists>c. path_value (JDict d') r = Some (JDict c)))
     \<and> (\<forall>r x. path_value (JDict d) r = Some x \<and> \<not> is_dict x \<and> \<not> strict_prefix r (split_dot key)
           \<longrightarrow> path_value (JDict d') r = Some x)"
proof -
  obtain p ps where sp: "split_dot key = p # ps"
    using split_dot_nonempty [of key] by (cases "split_dot key") auto
  let ?d' = "set_dict d p ps v"
  have ret: "set_nested (JDict d) key v = Inr (JDict ?d')"
    using sp by (rule set_nested_dict)
  have final: "path_value (JDict ?d') (split_dot key) =
      Some (case path_value (JDict d) (split_dot key) of None \<Rightarrow> v | Some x \<Rightarrow> x)"
    unfolding sp by (rule path_value_set_dict)
  have inner: "\<exists>c. path_value (JDict ?d') r = Some (JDict c)"
    if "strict_prefix r (split_dot key)" for r
  proof -
    from that obtain a s where "split_dot key = r @ a # s"
      by (auto simp: strict_prefix_def prefix_def neq_Nil_conv)
    with final show ?thesis
      using path_value_prefix_dict [of "JDict ?d'" r a s] by simp
  qed
  have frame: "path_value (JDict ?d') r = Some x"
    if "path_value (JDict d) r = Some x" "\<not> is_dict x" "\<not> strict_prefix r (split_dot key)"
    for r x
    using that unfolding sp by (rule set_dict_frame)
  from ret final inner frame show ?thesis
    by blast
qed

theorem set_nested_write_once_witness:
  "path_value (JDict [(''a'', JStr ''Welcome''), (''c'', JStr ''Keep'')]) [''c'']
      = Some (JStr ''Keep'')
   \<and> \<not> is_dict (JStr ''Keep'')
   \<and> \<not> strict_prefix [''c''] (split_dot ''a.b'')
   \<and> strict_prefix [''a''] (split_dot ''a.b'')
   \<and> (\<exists>d'. set_nested (JDict [(''a'', JStr ''Welcome''), (''c'', JStr ''Keep'')]) ''a.b''
               (JStr ''B'') = Inr (JDict d')
          \<and> path_value (JDict d') [''c''] = Some (JStr ''Keep'')
          \<and> (\<exists>c. path_value (JDict d') [''a''] = Some (JDict c)))"
proof -
  let ?d = "[(''a'', JStr ''Welcome''), (''c'', JStr ''Keep'')]"
  have h: "path_value (JDict ?d) [''c''] = Some (JStr ''Keep'')
      \<and> \<not> is_dict (JStr ''Keep'') \<and> \<not> strict_prefix [''c''] (split_dot ''a.b'')"
    by simp
  have i: "strict_prefix [''a''] (split_dot ''a.b'')"
    by simp
  from set_nested_write_once [of ?d "''a.b''" "JStr ''B''"] h i show ?thesis
    by blast
qed

text \<open>
  The claim C2 as it is written fails where it says that existing values are never
  overwritten, also with a non-mapping value at an intermediate position: the string stored
  under \<open>a\<close> is lost when \<open>a.b\<close> is set.
\<close>

theorem set_nested_overwrites_intermediate:
  "get_nested (JDict [(''a'', JStr ''Welcome'')]) ''a'' = JStr ''Welcome''
   \<and> set_nested (JDict [(''a'', JStr ''Welcome'')]) ''a.b'' (JStr ''B'')
       = Inr (JDict [(''a'', JDict [(''b'', JStr ''B'')])])
   \<and> get_nested (JDict [(''a'', JDict [(''b'', JStr ''B'')])]) ''a'' \<noteq> JStr ''Welcome''"
  by (simp add: set_nested_def get_nested_def)

text \<open>
  C9, as the code has it. On a mapping tree, if \<open>get_nested\<close> returns \<open>None\<close> for the path
  and the reason is not a \<open>null\<close> stored under the path, then \<open>set_nested\<close> returns
  normally and \<open>get_nested\<close> returns the value that was set.
\<close>

theorem get_after_set:
  "get_nested (JDict d) key = JNull \<Longrightarrow>
   path_value (JDict d) (split_dot key) \<noteq> Some JNull \<Longrightarrow>
   \<exists>t'. set_nested (JDict d) key v = Inr t' \<and> get_nested t' key = v"
proof -
  assume absent: "get_nested (JDict d) key = JNull"
    and no_null: "path_value (JDict d) (split_dot key) \<noteq> Some JNull"
  obtain p ps where sp: "split_dot key = p # ps"
    using split_dot_nonempty [of key] by (cases "split_dot key") auto
  from absent no_null have missing: "path_value (JDict d) (p # ps) = None"
    by (simp add: get_nested_def get_loop_path_value sp split: option.splits)
  have "path_value (JDict (set_dict d p ps v)) (p # ps) = Some v"
    using path_value_set_dict [of d p ps v] missing by simp
  then have "get_nested (JDict (set_dict d p ps v)) key = v"
    by (simp add: get_nested_def get_loop_path_value sp)
  with sp show ?thesis
    by (simp add: set_nested_dict)
qed

theorem get_after_set_witness:
  "get_nested (JDict []) ''home.title'' = JNull
   \<and> path_value (JDict []) (split_dot ''home.title'') \<noteq> Some JNull
   \<and> (\<exists>t'. set_nested (JDict []) ''home.title'' (JStr ''Title'') = Inr t'
         \<and> get_nested t' ''home.title'' = JStr ''Title'')"
proof -
  have a: "get_nested (JDict []) ''home.title'' = JNull"
    by (simp add: get_nested_def)
  have b: "path_value (JDict []) (split_dot ''home.title'') \<noteq> Some JNull"
    by simp
  from get_after_set [OF a b] a b show ?thesis
    by blast
qed

text \<open>
  The claim C9 as it is written fails on a tree that stores \<open>null\<close> under the path: the
  lookup returns \<open>None\<close>, the key is in the dictionary, so nothing is written, and the
  lookup returns \<open>None\<close> again.
\<close>

theorem get_after_set_stored_null:
  "get_nested (JDict [(''a'', JNull)]) ''a'' = JNull
   \<and> set_nested (JDict [(''a'', JNull)]) ''a'' (JStr ''X'') = Inr (JDict [(''a'', JNull)])
   \<and> get_nested (JDict [(''a'', JNull)]) ''a'' \<noteq> JStr ''X''"
  by (simp add: set_nested_def get_nested_def)

section \<open>Backend catalog: results\<close>

lemma translate_msg_Inr:
  "translate_msg str_of m = Inr m' \<longleftrightarrow>
     (\<exists>md x. m = JDict md \<and> map_of md ''message'' = Some x
        \<and> m' = JDict (AList.update ''translation'' (JStr (''[DE] '' @ py_format str_of x)) md))"
  by (cases m) (auto simp: translate_msg_def split: option.splits)

lemma translate_msg_valid:
  "valid_message m \<longleftrightarrow> (\<exists>m'. translate_msg str_of m = Inr m')"
  by (cases m) (auto simp: translate_msg_def valid_message_def split: option.splits)

lemma translate_all_Inr:
  "translate_all str_of ms = Inr ms' \<longleftrightarrow>
     list_all2 (\<lambda>m m'. translate_msg str_of m = Inr m') ms ms'"
proof (induction ms arbitrary: ms')
  case Nil
  show ?case by auto
next
  case (Cons m ms)
  show ?case
  proof (cases "translate_msg str_of m")
    case (Inl e)
    then show ?thesis by (auto simp: list_all2_Cons1)
  next
    case m1: (Inr m1)
    show ?thesis
    proof (cases "translate_all str_of ms")
      case (Inl e)
      with m1 Cons.IH show ?thesis by (auto simp: list_all2_Cons1)
    next
      case (Inr ms1)
      with m1 Cons.IH show ?thesis by (auto simp: list_all2_Cons1)
    qed
  qed
qed

lemma translate_all_valid:
  "list_all valid_message ms \<longleftrightarrow> (\<exists>ms'. translate_all str_of ms = Inr ms')"
proof (induction ms)
  case Nil
  show ?case by simp
next
  case (Cons m ms)
  show ?case
  proof (cases "translate_msg str_of m")
    case (Inl e)
    then show ?thesis
      using translate_msg_valid [of m str_of] by auto
  next
    case m1: (Inr m1)
    then have "valid_message m"
      using translate_msg_valid [of m str_of] by auto
    with m1 Cons.IH show ?thesis
      by (cases "translate_all str_of ms") auto
  qed
qed

lemma translate_all_chars:
  "translate_all str_of (map (\<lambda>c. JStr [c]) s) = (if s = [] then Inr [] else Inl TypeError)"
  by (cases s) (simp_all add: translate_msg_def)

lemma translate_all_keys:
  "translate_all str_of (map (\<lambda>kv. JStr (fst kv)) d) = (if d = [] then Inr [] else Inl TypeError)"
  by (cases d) (simp_all add: translate_msg_def)

text \<open>The result of lines 16 to 19 on a record whose messages are a list.\<close>

lemma translate_catalog_list:
  "map_of d ''messages'' = Some (JList ms) \<Longrightarrow>
   translate_catalog str_of (JDict d) =
     (case translate_all str_of ms of
        Inl e \<Rightarrow> Inl e
      | Inr ms' \<Rightarrow> Inr (JDict (AList.update ''messages'' (JList ms')
                               (AList.update ''language'' (JStr ''de'') d))))"
  by (simp add: translate_catalog_def update_conv' split: sum.splits)

lemma translate_catalog_Inr:
  "translate_catalog str_of data = Inr out \<Longrightarrow>
   \<exists>d. data = JDict d \<and>
     ((\<exists>ms ms'. map_of d ''messages'' = Some (JList ms) \<and> translate_all str_of ms = Inr ms'
          \<and> out = JDict (AList.update ''messages'' (JList ms')
                           (AList.update ''language'' (JStr ''de'') d)))
      \<or> ((\<exists>x. map_of d ''messages'' = Some x \<and> (\<forall>ms. x \<noteq> JList ms))
          \<and> out = JDict (AList.update ''language'' (JStr ''de'') d)))"
proof -
  assume ok: "translate_catalog str_of data = Inr out"
  then obtain d where d: "data = JDict d"
    by (cases data) (auto simp: translate_catalog_def)
  from ok d obtain x where x: "map_of d ''messages'' = Some x"
    by (auto simp: translate_catalog_def update_conv' split: option.splits)
  show ?thesis
  proof (cases "\<exists>ms. x = JList ms")
    case True
    then obtain ms where "x = JList ms" ..
    with ok d x show ?thesis
      by (auto simp: translate_catalog_list split: sum.splits)
  next
    case False
    with ok d x have "out = JDict (AList.update ''language'' (JStr ''de'') d)"
      by (cases x) (auto simp: translate_catalog_def update_conv' translate_all_chars translate_all_keys
          split: sum.splits if_splits)
    with d x False show ?thesis by auto
  qed
qed

lemma malformed_catalog_raises:
  "malformed_catalog data \<Longrightarrow> \<exists>e. translate_catalog str_of data = Inl e"
proof (cases "translate_catalog str_of data")
  case (Inl e)
  then show ?thesis by auto
next
  case (Inr out)
  assume bad: "malformed_catalog data"
  from translate_catalog_Inr [OF Inr] obtain d where d: "data = JDict d"
    and cases: "(\<exists>ms ms'. map_of d ''messages'' = Some (JList ms) \<and> translate_all str_of ms = Inr ms')
      \<or> (\<exists>x. map_of d ''messages'' = Some x \<and> (\<forall>ms. x \<noteq> JList ms))"
    by blast
  from cases show ?thesis
  proof
    assume "\<exists>ms ms'. map_of d ''messages'' = Some (JList ms) \<and> translate_all str_of ms = Inr ms'"
    then obtain ms ms' where "map_of d ''messages'' = Some (JList ms)"
      "translate_all str_of ms = Inr ms'" by blast
    with bad d translate_all_valid [of ms str_of] show ?thesis
      by (auto simp: malformed_catalog_def)
  next
    assume "\<exists>x. map_of d ''messages'' = Some x \<and> (\<forall>ms. x \<noteq> JList ms)"
    then obtain x where x: "map_of d ''messages'' = Some x" "\<forall>ms. x \<noteq> JList ms" by blast
    with bad d have "bad_messages x"
      by (simp add: malformed_catalog_def)
    with x d Inr show ?thesis
      by (cases x) (auto simp: translate_catalog_def update_conv' translate_all_chars translate_all_keys)
  qed
qed


lemma translate_all_nth:
  "translate_all str_of ms = Inr ms' \<Longrightarrow>
   length ms' = length ms \<and> (\<forall>i<length ms. translate_msg str_of (ms ! i) = Inr (ms' ! i))"
  by (simp add: translate_all_Inr list_all2_conv_all_nth)

lemma is_dict_conv: "is_dict v \<longleftrightarrow> (\<exists>d. v = JDict d)"
  by (cases v) auto

text \<open>
  C1. On a valid catalog \<open>process_backend\<close> ends without an exception and writes a
  catalog to the output path; its \<open>language\<close> field is \<open>de\<close>, it has as many messages as
  the input, and the message at each position has the \<open>message\<close> field of the input
  message at that position and the translation \<open>[DE] \<close> followed by that field (a string
  as it is, another value as \<open>str()\<close> prints it).
\<close>

theorem backend_valid_catalog:
  assumes "backend_en fs = Some (Parsed data)" and "valid_catalog data"
  shows "\<exists>out ms'. process_backend str_of fs = (fs\<lparr>backend_de := Some (Parsed out)\<rparr>, None)
     \<and> field out ''language'' = Some (JStr ''de'')
     \<and> field out ''messages'' = Some (JList ms')
     \<and> length ms' = length (messages_of data)
     \<and> (\<forall>i<length (messages_of data). \<exists>m.
           field (messages_of data ! i) ''message'' = Some m
         \<and> field (ms' ! i) ''message'' = Some m
         \<and> field (ms' ! i) ''translation'' = Some (JStr (''[DE] '' @ py_format str_of m)))"
proof -
  from assms(2) obtain d ms where d: "data = JDict d"
    and ms: "map_of d ''messages'' = Some (JList ms)" and valid: "list_all valid_message ms"
    by (auto simp: valid_catalog_def is_dict_conv split: option.splits json.splits)
  from valid obtain ms' where ms': "translate_all str_of ms = Inr ms'"
    using translate_all_valid [of ms str_of] by auto
  let ?out = "JDict (AList.update ''messages'' (JList ms')
                 (AList.update ''language'' (JStr ''de'') d))"
  have run: "process_backend str_of fs = (fs\<lparr>backend_de := Some (Parsed ?out)\<rparr>, None)"
    using assms(1) d ms ms' by (simp add: process_backend_def translate_catalog_list)
  have lang: "field ?out ''language'' = Some (JStr ''de'')"
    by (simp add: update_conv')
  have msgs: "field ?out ''messages'' = Some (JList ms')"
    by (simp add: update_conv')
  have same: "messages_of data = ms"
    using d ms by (simp add: messages_of_def)
  have len: "length ms' = length ms"
    using translate_all_nth [OF ms'] by simp
  have each: "\<exists>m. field (ms ! i) ''message'' = Some m
         \<and> field (ms' ! i) ''message'' = Some m
         \<and> field (ms' ! i) ''translation'' = Some (JStr (''[DE] '' @ py_format str_of m))"
    if "i < length ms" for i
  proof -
    from that have "translate_msg str_of (ms ! i) = Inr (ms' ! i)"
      using translate_all_nth [OF ms'] by simp
    then obtain md x where "ms ! i = JDict md" "map_of md ''message'' = Some x"
      "ms' ! i = JDict (AList.update ''translation'' (JStr (''[DE] '' @ py_format str_of x)) md)"
      unfolding translate_msg_Inr by blast
    then show ?thesis
      by (simp add: update_conv')
  qed
  from run lang msgs len each same show ?thesis
    by (intro exI [of _ ?out] exI [of _ ms']) simp
qed

text \<open>
  C6. When \<open>process_backend\<close> ends normally on a catalog, the only file it changes is the
  output; in the catalog written, every top-level field other than \<open>language\<close> and
  \<open>messages\<close> is as in the input, the messages are as many as in the input, and every field
  other than \<open>translation\<close> of the message at each position is as in the input message at
  that position. A \<open>messages\<close> field that is not a list is written as it was read.
\<close>

theorem backend_frame:
  assumes "backend_en fs = Some (Parsed data)"
    and "process_backend str_of fs = (fs', None)"
  shows "\<exists>out. fs' = fs\<lparr>backend_de := Some (Parsed out)\<rparr>
     \<and> (\<forall>k. k \<noteq> ''language'' \<and> k \<noteq> ''messages'' \<longrightarrow> field out k = field data k)
     \<and> length (messages_of out) = length (messages_of data)
     \<and> (\<forall>i<length (messages_of data). \<forall>k. k \<noteq> ''translation'' \<longrightarrow>
            field (messages_of out ! i) k = field (messages_of data ! i) k)
     \<and> ((\<forall>ms. field data ''messages'' \<noteq> Some (JList ms)) \<longrightarrow>
            field out ''messages'' = field data ''messages'')"
proof -
  from assms obtain out where out: "translate_catalog str_of data = Inr out"
    and fs': "fs' = fs\<lparr>backend_de := Some (Parsed out)\<rparr>"
    by (auto simp: process_backend_def split: sum.splits)
  from translate_catalog_Inr [OF out] obtain d where d: "data = JDict d"
    and shape: "(\<exists>ms ms'. map_of d ''messages'' = Some (JList ms) \<and> translate_all str_of ms = Inr ms'
          \<and> out = JDict (AList.update ''messages'' (JList ms')
                           (AList.update ''language'' (JStr ''de'') d)))
      \<or> ((\<exists>x. map_of d ''messages'' = Some x \<and> (\<forall>ms. x \<noteq> JList ms))
          \<and> out = JDict (AList.update ''language'' (JStr ''de'') d))"
    by blast
  from shape show ?thesis
  proof
    assume "\<exists>ms ms'. map_of d ''messages'' = Some (JList ms) \<and> translate_all str_of ms = Inr ms'
          \<and> out = JDict (AList.update ''messages'' (JList ms')
                           (AList.update ''language'' (JStr ''de'') d))"
    then obtain ms ms' where ms: "map_of d ''messages'' = Some (JList ms)"
      and ms': "translate_all str_of ms = Inr ms'"
      and o: "out = JDict (AList.update ''messages'' (JList ms')
                           (AList.update ''language'' (JStr ''de'') d))"
      by blast
    have top: "field out k = field data k" if "k \<noteq> ''language''" "k \<noteq> ''messages''" for k
      using that o d by (simp add: update_conv')
    have m_in: "messages_of data = ms"
      using d ms by (simp add: messages_of_def)
    have m_out: "messages_of out = ms'"
      using o by (simp add: messages_of_def update_conv')
    have len: "length ms' = length ms"
      using translate_all_nth [OF ms'] by simp
    have each: "field (ms' ! i) k = field (ms ! i) k"
      if "i < length ms" "k \<noteq> ''translation''" for i k
    proof -
      from that have "translate_msg str_of (ms ! i) = Inr (ms' ! i)"
        using translate_all_nth [OF ms'] by simp
      then obtain md x where "ms ! i = JDict md"
        "ms' ! i = JDict (AList.update ''translation'' (JStr (''[DE] '' @ py_format str_of x)) md)"
        unfolding translate_msg_Inr by blast
      with that(2) show ?thesis
        by (simp add: update_conv')
    qed
    from fs' top m_in m_out len each ms d show ?thesis
      by (intro exI [of _ out]) simp
  next
    assume "(\<exists>x. map_of d ''messages'' = Some x \<and> (\<forall>ms. x \<noteq> JList ms))
          \<and> out = JDict (AList.update ''language'' (JStr ''de'') d)"
    then obtain x where x: "map_of d ''messages'' = Some x" "\<forall>ms. x \<noteq> JList ms"
      and o: "out = JDict (AList.update ''language'' (JStr ''de'') d)"
      by blast
    have top: "field out k = field data k" if "k \<noteq> ''language''" for k
      using that o d by (simp add: update_conv')
    have m_in: "messages_of data = []"
      using d x by (cases x) (simp_all add: messages_of_def)
    have m_out: "messages_of out = []"
      using o x by (cases x) (simp_all add: messages_of_def update_conv')
    from fs' top m_in m_out show ?thesis
      by (intro exI [of _ out]) simp
  qed
qed

text \<open>
  C7, as the code has it. If the catalog file exists and is not a JSON document, or the
  document is not a record, has no \<open>messages\<close> field, or has a message that is not a
  record with a \<open>message\<close> field, \<open>process_backend\<close> ends with an exception and has
  changed no file.
\<close>

theorem backend_malformed_fatal:
  assumes "backend_en fs = Some c"
    and "c = Unparsable \<or> (\<exists>data. c = Parsed data \<and> malformed_catalog data)"
  shows "\<exists>e. process_backend str_of fs = (fs, Some e)"
  using assms malformed_catalog_raises [of _ str_of]
  by (fastforce simp: process_backend_def split: content.splits sum.splits)

theorem backend_valid_catalog_witness:
  "backend_en \<lparr>backend_en = Some (Parsed (JDict [(''language'', JStr ''en''),
        (''messages'', JList [JDict [(''id'', JStr ''greet''), (''message'', JStr ''Hello''),
                                       (''translation'', JStr ''old'')]])])),
      backend_de = None, keys_txt = None, frontend_en = None, frontend_de = None\<rparr>
     = Some (Parsed (JDict [(''language'', JStr ''en''),
        (''messages'', JList [JDict [(''id'', JStr ''greet''), (''message'', JStr ''Hello''),
                                       (''translation'', JStr ''old'')]])]))
   \<and> valid_catalog (JDict [(''language'', JStr ''en''),
        (''messages'', JList [JDict [(''id'', JStr ''greet''), (''message'', JStr ''Hello''),
                                       (''translation'', JStr ''old'')]])])
   \<and> (\<exists>out ms'. process_backend (\<lambda>v. [])
          \<lparr>backend_en = Some (Parsed (JDict [(''language'', JStr ''en''),
             (''messages'', JList [JDict [(''id'', JStr ''greet''), (''message'', JStr ''Hello''),
                                            (''translation'', JStr ''old'')]])])),
           backend_de = None, keys_txt = None, frontend_en = None, frontend_de = None\<rparr>
         = (\<lparr>backend_en = Some (Parsed (JDict [(''language'', JStr ''en''),
             (''messages'', JList [JDict [(''id'', JStr ''greet''), (''message'', JStr ''Hello''),
                                            (''translation'', JStr ''old'')]])])),
           backend_de = Some (Parsed out), keys_txt = None, frontend_en = None,
           frontend_de = None\<rparr>, None)
       \<and> field out ''language'' = Some (JStr ''de'')
       \<and> field out ''messages'' = Some (JList ms')
       \<and> length ms' = 1
       \<and> field (ms' ! 0) ''translation'' = Some (JStr ''[DE] Hello''))"
proof -
  let ?D = "JDict [(''language'', JStr ''en''),
        (''messages'', JList [JDict [(''id'', JStr ''greet''), (''message'', JStr ''Hello''),
                                       (''translation'', JStr ''old'')]])]"
  let ?FS = "\<lparr>backend_en = Some (Parsed ?D), backend_de = None, keys_txt = None,
      frontend_en = None, frontend_de = None\<rparr>"
  have h1: "backend_en ?FS = Some (Parsed ?D)"
    by simp
  have h2: "valid_catalog ?D"
    by (simp add: valid_catalog_def valid_message_def)
  have m: "messages_of ?D = [JDict [(''id'', JStr ''greet''), (''message'', JStr ''Hello''),
                                       (''translation'', JStr ''old'')]]"
    by (simp add: messages_of_def)
  from backend_valid_catalog [OF h1 h2, of "\<lambda>v. []"] obtain out ms' where
    run: "process_backend (\<lambda>v. []) ?FS = (?FS\<lparr>backend_de := Some (Parsed out)\<rparr>, None)"
    and lang: "field out ''language'' = Some (JStr ''de'')"
    and msgs: "field out ''messages'' = Some (JList ms')"
    and len: "length ms' = length (messages_of ?D)"
    and each: "\<forall>i<length (messages_of ?D). \<exists>m.
           field (messages_of ?D ! i) ''message'' = Some m
         \<and> field (ms' ! i) ''message'' = Some m
         \<and> field (ms' ! i) ''translation'' = Some (JStr (''[DE] '' @ py_format (\<lambda>v. []) m))"
    by blast
  from each have "field (ms' ! 0) ''translation'' = Some (JStr ''[DE] Hello'')"
    by (auto simp: m)
  with h1 h2 run lang msgs len show ?thesis
    by (simp add: m)
qed

theorem backend_frame_witness:
  "backend_en \<lparr>backend_en = Some (Parsed (JDict [(''language'', JStr ''en''),
        (''messages'', JList [JDict [(''id'', JStr ''greet''), (''message'', JStr ''Hello''),
                                       (''translation'', JStr ''old'')]])])),
      backend_de = None, keys_txt = None, frontend_en = None, frontend_de = None\<rparr>
     = Some (Parsed (JDict [(''language'', JStr ''en''),
        (''messages'', JList [JDict [(''id'', JStr ''greet''), (''message'', JStr ''Hello''),
                                       (''translation'', JStr ''old'')]])]))
   \<and> process_backend (\<lambda>v. [])
        \<lparr>backend_en = Some (Parsed (JDict [(''language'', JStr ''en''),
           (''messages'', JList [JDict [(''id'', JStr ''greet''), (''message'', JStr ''Hello''),
                                          (''translation'', JStr ''old'')]])])),
         backend_de = None, keys_txt = None, frontend_en = None, frontend_de = None\<rparr>
       = (\<lparr>backend_en = Some (Parsed (JDict [(''language'', JStr ''en''),
           (''messages'', JList [JDict [(''id'', JStr ''greet''), (''message'', JStr ''Hello''),
                                          (''translation'', JStr ''old'')]])])),
         backend_de = Some (Parsed (JDict [(''language'', JStr ''de''),
           (''messages'', JList [JDict [(''id'', JStr ''greet''), (''message'', JStr ''Hello''),
                                          (''translation'', JStr ''[DE] Hello'')]])])),
         keys_txt = None, frontend_en = None, frontend_de = None\<rparr>, None)
   \<and> (0::nat) < length (messages_of (JDict [(''language'', JStr ''en''),
        (''messages'', JList [JDict [(''id'', JStr ''greet''), (''message'', JStr ''Hello''),
                                       (''translation'', JStr ''old'')]])]))
   \<and> ''id'' \<noteq> ''translation''
   \<and> (\<exists>out. field (messages_of out ! 0) ''id'' = Some (JStr ''greet'')
         \<and> field out ''version'' = None)"
proof -
  let ?D = "JDict [(''language'', JStr ''en''),
        (''messages'', JList [JDict [(''id'', JStr ''greet''), (''message'', JStr ''Hello''),
                                       (''translation'', JStr ''old'')]])]"
  let ?FS = "\<lparr>backend_en = Some (Parsed ?D), backend_de = None, keys_txt = None,
      frontend_en = None, frontend_de = None\<rparr>"
  let ?FS' = "\<lparr>backend_en = Some (Parsed ?D),
      backend_de = Some (Parsed (JDict [(''language'', JStr ''de''),
           (''messages'', JList [JDict [(''id'', JStr ''greet''), (''message'', JStr ''Hello''),
                                          (''translation'', JStr ''[DE] Hello'')]])])),
      keys_txt = None, frontend_en = None, frontend_de = None\<rparr>"
  have h1: "backend_en ?FS = Some (Parsed ?D)"
    by simp
  have h2: "process_backend (\<lambda>v. []) ?FS = (?FS', None)"
    by (simp add: process_backend_def translate_catalog_def translate_msg_def)
  have m: "messages_of ?D = [JDict [(''id'', JStr ''greet''), (''message'', JStr ''Hello''),
                                       (''translation'', JStr ''old'')]]"
    by (simp add: messages_of_def)
  have h3: "(0::nat) < length (messages_of ?D) \<and> ''id'' \<noteq> ''translation''"
    by (simp add: m)
  from backend_frame [OF h1 h2] obtain out where
    top: "\<forall>k. k \<noteq> ''language'' \<and> k \<noteq> ''messages'' \<longrightarrow> field out k = field ?D k"
    and each: "\<forall>i<length (messages_of ?D). \<forall>k. k \<noteq> ''translation'' \<longrightarrow>
            field (messages_of out ! i) k = field (messages_of ?D ! i) k"
    by blast
  from each have "field (messages_of out ! 0) ''id'' = Some (JStr ''greet'')"
    by (auto simp: m)
  moreover from top have "field out ''version'' = None"
    by auto
  ultimately show ?thesis
    using h1 h2 h3 by blast
qed

theorem backend_malformed_fatal_witness:
  "backend_en \<lparr>backend_en = Some (Parsed (JDict [(''language'', JStr ''en''),
        (''messages'', JList [JDict [(''id'', JStr ''greet'')]])])),
      backend_de = None, keys_txt = None, frontend_en = None, frontend_de = None\<rparr>
     = Some (Parsed (JDict [(''language'', JStr ''en''),
        (''messages'', JList [JDict [(''id'', JStr ''greet'')]])]))
   \<and> malformed_catalog (JDict [(''language'', JStr ''en''),
        (''messages'', JList [JDict [(''id'', JStr ''greet'')]])])
   \<and> (\<exists>e. process_backend (\<lambda>v. [])
          \<lparr>backend_en = Some (Parsed (JDict [(''language'', JStr ''en''),
             (''messages'', JList [JDict [(''id'', JStr ''greet'')]])])),
           backend_de = None, keys_txt = None, frontend_en = None, frontend_de = None\<rparr>
         = (\<lparr>backend_en = Some (Parsed (JDict [(''language'', JStr ''en''),
             (''messages'', JList [JDict [(''id'', JStr ''greet'')]])])),
           backend_de = None, keys_txt = None, frontend_en = None, frontend_de = None\<rparr>,
            Some e))"
proof -
  let ?D = "JDict [(''language'', JStr ''en''),
        (''messages'', JList [JDict [(''id'', JStr ''greet'')]])]"
  let ?FS = "\<lparr>backend_en = Some (Parsed ?D), backend_de = None, keys_txt = None,
      frontend_en = None, frontend_de = None\<rparr>"
  have h1: "backend_en ?FS = Some (Parsed ?D)"
    by simp
  have h2: "malformed_catalog ?D"
    by (simp add: malformed_catalog_def valid_message_def)
  then have h3: "Parsed ?D = Unparsable \<or> (\<exists>data. Parsed ?D = Parsed data \<and> malformed_catalog data)"
    by simp
  from backend_malformed_fatal [OF h1 h3, of "\<lambda>v. []"] h1 h2 show ?thesis
    by blast
qed

text \<open>
  The claim C7 as it is written counts a missing \<open>language\<close> field among the faults. The
  script assigns the field without reading it: a catalog without it is translated and
  written.
\<close>

theorem backend_missing_language_not_fatal:
  "field (JDict [(''messages'', JList [JDict [(''message'', JStr ''Hello'')]])]) ''language'' = None
   \<and> process_backend (\<lambda>v. [])
        \<lparr>backend_en = Some (Parsed (JDict [(''messages'',
                             JList [JDict [(''message'', JStr ''Hello'')]])])),
         backend_de = None, keys_txt = None, frontend_en = None, frontend_de = None\<rparr>
       = (\<lparr>backend_en = Some (Parsed (JDict [(''messages'',
                             JList [JDict [(''message'', JStr ''Hello'')]])])),
         backend_de = Some (Parsed (JDict [(''messages'',
                             JList [JDict [(''message'', JStr ''Hello''),
                                           (''translation'', JStr ''[DE] Hello'')]]),
                             (''language'', JStr ''de'')])),
         keys_txt = None, frontend_en = None, frontend_de = None\<rparr>, None)"
  by (simp add: process_backend_def translate_catalog_def translate_msg_def)

section \<open>Frontend key tree: results\<close>

lemma split_dot_Cons: "\<exists>p ps. split_dot key = p # ps"
  using split_dot_nonempty [of key] by (cases "split_dot key") auto

lemma set_nested_dict_ex: "\<exists>d'. set_nested (JDict d) key v = Inr (JDict d')"
  using split_dot_Cons [of key] by (auto simp: set_nested_dict)

lemma set_dict_presence:
  "path_value (JDict d) r \<noteq> None \<Longrightarrow> path_value (JDict (set_dict d p ps v)) r \<noteq> None"
proof (induction ps arbitrary: d p r)
  case Nil
  then show ?case
    by (cases r) (auto simp: update_conv' split: option.splits)
next
  case (Cons q qs)
  show ?case
  proof (cases r)
    case Nil
    then show ?thesis by simp
  next
    case r: (Cons a r')
    show ?thesis
    proof (cases "a = p")
      case False
      with Cons.prems r show ?thesis by (simp add: update_conv')
    next
      case True
      from Cons.prems r True obtain y where y: "map_of d p = Some y" "path_value y r' \<noteq> None"
        by (auto split: option.splits)
      show ?thesis
      proof (cases y)
        case (JDict c)
        with y have "path_value (JDict (set_dict c q qs v)) r' \<noteq> None"
          by (intro Cons.IH) simp
        with y JDict r True show ?thesis by (simp add: update_conv')
      qed (use y r True in \<open>cases r'; simp add: update_conv'\<close>)+
    qed
  qed
qed

lemma set_dict_no_new_null:
  "path_value (JDict (set_dict d p ps (JStr s))) r = Some JNull \<Longrightarrow>
   path_value (JDict d) r = Some JNull"
proof (induction ps arbitrary: d p r)
  case Nil
  show ?case
  proof (cases r)
    case Nil
    with Nil.prems show ?thesis by simp
  next
    case r: (Cons a r')
    with Nil.prems show ?thesis
      by (cases r') (auto simp: update_conv' split: option.splits if_splits)
  qed
next
  case (Cons q qs)
  show ?case
  proof (cases r)
    case Nil
    with Cons.prems show ?thesis by simp
  next
    case r: (Cons a r')
    show ?thesis
    proof (cases "a = p")
      case False
      with Cons.prems r show ?thesis by (simp add: update_conv')
    next
      case True
      define c where "c = (case map_of d p of Some (JDict c) \<Rightarrow> c | _ \<Rightarrow> [])"
      from Cons.prems r True have "path_value (JDict (set_dict c q qs (JStr s))) r' = Some JNull"
        by (simp add: update_conv' c_def)
      then have below: "path_value (JDict c) r' = Some JNull"
        by (rule Cons.IH)
      then have "c \<noteq> []"
        by (cases r') auto
      then obtain c' where "map_of d p = Some (JDict c')" "c = c'"
        by (auto simp: c_def split: option.splits json.splits)
      with below r True show ?thesis by simp
    qed
  qed
qed

lemma get_loop_resolved:
  "get_loop t r \<noteq> JNull \<longleftrightarrow> path_value t r \<noteq> None \<and> path_value t r \<noteq> Some JNull"
  by (auto simp: get_loop_path_value split: option.splits)

lemma set_dict_resolved:
  "get_loop (JDict d) r \<noteq> JNull \<Longrightarrow> get_loop (JDict (set_dict d p ps (JStr s))) r \<noteq> JNull"
  unfolding get_loop_resolved
  using set_dict_presence set_dict_no_new_null by blast

lemma set_dict_resolves_key:
  "path_value (JDict d) (p # ps) \<noteq> Some JNull \<Longrightarrow>
   get_loop (JDict (set_dict d p ps (JStr s))) (p # ps) \<noteq> JNull"
  unfolding get_loop_path_value path_value_set_dict
  by (auto split: option.splits)

text \<open>One pass of the loop on a source tree and a target tree that are mappings.\<close>

lemma key_step_dict:
  "\<exists>d1 e1. key_step (JDict d) (JDict e) k = Inr (JDict d1, JDict e1)
     \<and> ((get_nested (JDict d) k \<noteq> JNull \<and> d1 = d)
        \<or> (get_nested (JDict d) k = JNull
           \<and> (\<exists>p ps. split_dot k = p # ps \<and> d1 = set_dict d p ps (JStr (display_name k)))))"
proof -
  obtain p ps where sp: "split_dot k = p # ps"
    using split_dot_Cons by blast
  show ?thesis
  proof (cases "get_nested (JDict d) k = JNull")
    case True
    with sp show ?thesis
      by (simp add: key_step_def Let_def set_nested_dict)
  next
    case False
    with sp show ?thesis
      by (cases "get_nested (JDict d) k") (simp_all add: key_step_def Let_def set_nested_dict)
  qed
qed

lemma process_keys_dict:
  "\<forall>k\<in>set keys. path_value (JDict d) (split_dot k) \<noteq> Some JNull \<Longrightarrow>
   \<exists>d' e'. process_keys (JDict d) (JDict e) keys = Inr (JDict d', JDict e')
     \<and> (\<forall>k\<in>set keys. get_nested (JDict d') k \<noteq> JNull)
     \<and> (\<forall>k. get_nested (JDict d) k \<noteq> JNull \<longrightarrow> get_nested (JDict d') k \<noteq> JNull)"
proof (induction keys arbitrary: d e)
  case Nil
  show ?case by simp
next
  case (Cons key keys)
  from key_step_dict [of d e key] obtain d1 e1 where
    step: "key_step (JDict d) (JDict e) key = Inr (JDict d1, JDict e1)"
    and shape: "(get_nested (JDict d) key \<noteq> JNull \<and> d1 = d)
        \<or> (get_nested (JDict d) key = JNull
           \<and> (\<exists>p ps. split_dot key = p # ps \<and> d1 = set_dict d p ps (JStr (display_name key))))"
    by blast
  have key_ok: "get_nested (JDict d1) key \<noteq> JNull"
    using shape Cons.prems set_dict_resolves_key [of d _ _ "display_name key"]
    by (auto simp: get_nested_def)
  have kept: "get_nested (JDict d1) k \<noteq> JNull" if "get_nested (JDict d) k \<noteq> JNull" for k
    using shape that set_dict_resolved [of d "split_dot k"]
    by (auto simp: get_nested_def)
  have nulls: "path_value (JDict d1) r \<noteq> Some JNull" if "path_value (JDict d) r \<noteq> Some JNull" for r
    using shape that set_dict_no_new_null [of d _ _ "display_name key" r]
    by auto
  from Cons.prems nulls have "\<forall>k\<in>set keys. path_value (JDict d1) (split_dot k) \<noteq> Some JNull"
    by simp
  from Cons.IH [OF this, of e1] obtain d' e' where
    rest: "process_keys (JDict d1) (JDict e1) keys = Inr (JDict d', JDict e')"
    and all: "\<forall>k\<in>set keys. get_nested (JDict d') k \<noteq> JNull"
    and kept': "\<forall>k. get_nested (JDict d1) k \<noteq> JNull \<longrightarrow> get_nested (JDict d') k \<noteq> JNull"
    by blast
  from step rest have "process_keys (JDict d) (JDict e) (key # keys) = Inr (JDict d', JDict e')"
    by simp
  moreover from all key_ok kept' have "\<forall>k\<in>set (key # keys). get_nested (JDict d') k \<noteq> JNull"
    by simp
  moreover from kept kept' have "\<forall>k. get_nested (JDict d) k \<noteq> JNull \<longrightarrow> get_nested (JDict d') k \<noteq> JNull"
    by blast
  ultimately show ?case by blast
qed

lemma load_en_update [simp]:
  "load_en (fs\<lparr>frontend_en := Some (Parsed en), frontend_de := x\<rparr>) = en"
  by (simp add: load_en_def)

text \<open>
  C3, as the code has it. When the key list exists and the source tree the run starts from
  is a mapping (the document in the file, or the empty mapping when the file is missing or
  unreadable) that stores \<open>null\<close> under none of the keys, \<open>process_frontend\<close> ends
  normally, writes both trees, and \<open>get_nested\<close> finds a value that is not \<open>None\<close> under
  every key of the list in the source tree written, also when a key is a prefix or an
  extension of another.
\<close>

theorem frontend_keys_resolve:
  assumes "keys_txt fs = Some lines" and "load_en fs = JDict d"
    and "\<forall>k\<in>set (read_keys lines). path_value (JDict d) (split_dot k) \<noteq> Some JNull"
  shows "\<exists>en de. process_frontend fs =
           (fs\<lparr>frontend_en := Some (Parsed en), frontend_de := Some (Parsed de)\<rparr>, None)
     \<and> (\<forall>k\<in>set (read_keys lines). get_nested en k \<noteq> JNull)"
proof -
  from process_keys_dict [OF assms(3), of "[]"] obtain d' e' where
    "process_keys (JDict d) (JDict []) (read_keys lines) = Inr (JDict d', JDict e')"
    "\<forall>k\<in>set (read_keys lines). get_nested (JDict d') k \<noteq> JNull"
    by blast
  with assms(1,2) show ?thesis
    by (auto simp: process_frontend_def)
qed

theorem frontend_keys_resolve_witness:
  "keys_txt \<lparr>backend_en = None, backend_de = None, keys_txt = Some [''home.title'', ''home'', ''nav''],
      frontend_en = Some (Parsed (JDict [(''home'', JStr ''Welcome'')])), frontend_de = None\<rparr>
     = Some [''home.title'', ''home'', ''nav'']
   \<and> load_en \<lparr>backend_en = None, backend_de = None, keys_txt = Some [''home.title'', ''home'', ''nav''],
      frontend_en = Some (Parsed (JDict [(''home'', JStr ''Welcome'')])), frontend_de = None\<rparr>
     = JDict [(''home'', JStr ''Welcome'')]
   \<and> read_keys [''home.title'', ''home'', ''nav''] = [''home.title'', ''home'', ''nav'']
   \<and> path_value (JDict [(''home'', JStr ''Welcome'')]) (split_dot ''home.title'') \<noteq> Some JNull
   \<and> path_value (JDict [(''home'', JStr ''Welcome'')]) (split_dot ''home'') \<noteq> Some JNull
   \<and> path_value (JDict [(''home'', JStr ''Welcome'')]) (split_dot ''nav'') \<noteq> Some JNull
   \<and> (\<exists>en de. process_frontend
          \<lparr>backend_en = None, backend_de = None, keys_txt = Some [''home.title'', ''home'', ''nav''],
           frontend_en = Some (Parsed (JDict [(''home'', JStr ''Welcome'')])),
           frontend_de = None\<rparr>
         = (\<lparr>backend_en = None, backend_de = None,
            keys_txt = Some [''home.title'', ''home'', ''nav''],
            frontend_en = Some (Parsed en), frontend_de = Some (Parsed de)\<rparr>, None)
       \<and> get_nested en ''home.title'' \<noteq> JNull
       \<and> get_nested en ''home'' \<noteq> JNull
       \<and> get_nested en ''nav'' \<noteq> JNull)"
proof -
  let ?L = "[''home.title'', ''home'', ''nav'']"
  let ?D = "[(''home'', JStr ''Welcome'')]"
  let ?FS = "\<lparr>backend_en = None, backend_de = None, keys_txt = Some ?L,
      frontend_en = Some (Parsed (JDict ?D)), frontend_de = None\<rparr>"
  have h1: "keys_txt ?FS = Some ?L"
    by simp
  have h2: "load_en ?FS = JDict ?D"
    by (simp add: load_en_def)
  have r: "read_keys ?L = ?L"
    by (simp add: read_keys_def py_strip_def is_space_def)
  have n: "path_value (JDict ?D) (split_dot ''home.title'') \<noteq> Some JNull"
    "path_value (JDict ?D) (split_dot ''home'') \<noteq> Some JNull"
    "path_value (JDict ?D) (split_dot ''nav'') \<noteq> Some JNull"
    by simp_all
  then have h3: "\<forall>k\<in>set (read_keys ?L). path_value (JDict ?D) (split_dot k) \<noteq> Some JNull"
    unfolding r by simp
  from frontend_keys_resolve [OF h1 h2 h3] obtain en de where
    "process_frontend ?FS
       = (?FS\<lparr>frontend_en := Some (Parsed en), frontend_de := Some (Parsed de)\<rparr>, None)"
    "\<forall>k\<in>set (read_keys ?L). get_nested en k \<noteq> JNull"
    by blast
  then have "process_frontend ?FS
       = (\<lparr>backend_en = None, backend_de = None, keys_txt = Some ?L,
            frontend_en = Some (Parsed en), frontend_de = Some (Parsed de)\<rparr>, None)
     \<and> get_nested en ''home.title'' \<noteq> JNull
     \<and> get_nested en ''home'' \<noteq> JNull
     \<and> get_nested en ''nav'' \<noteq> JNull"
    unfolding r by simp
  with h1 h2 r n show ?thesis
    by blast
qed

text \<open>
  The claim C3 as it is written fails on a source tree that stores \<open>null\<close> under a key:
  the lookup returns \<open>None\<close>, \<open>set_nested\<close> finds the key in the dictionary and writes
  nothing, and the lookup in the tree written returns \<open>None\<close> again.
\<close>

theorem frontend_stored_null_unresolved:
  "process_frontend
     \<lparr>backend_en = None, backend_de = None, keys_txt = Some [''a''],
      frontend_en = Some (Parsed (JDict [(''a'', JNull)])), frontend_de = None\<rparr>
   = (\<lparr>backend_en = None, backend_de = None, keys_txt = Some [''a''],
      frontend_en = Some (Parsed (JDict [(''a'', JNull)])),
      frontend_de = Some (Parsed (JDict [(''a'', JStr ''[DE] A'')]))\<rparr>, None)
   \<and> get_nested (JDict [(''a'', JNull)]) ''a'' = JNull"
proof -
  have "display_name ''a'' = ''A''"
    by code_simp
  then show ?thesis
    by (simp add: process_frontend_def load_en_def read_keys_def py_strip_def is_space_def
        key_step_def set_nested_def get_nested_def)
qed

text \<open>
  C5 fails on the code. The source-tree file holds the JSON document \<open>[]\<close>, which
  \<open>json.load\<close> reads without an exception, and the key list holds the key \<open>a\<close>: the
  lookup returns \<open>None\<close>, \<open>set_nested\<close> assigns \<open>data["a"]\<close> on the list, and
  \<open>process_frontend\<close> ends with a \<open>TypeError\<close>, no file written. Where the source tree is
  a mapping the run always ends normally (\<open>frontend_mapping_tree_total\<close> below).
\<close>

theorem frontend_non_mapping_tree_raises:
  "process_frontend
     \<lparr>backend_en = None, backend_de = None, keys_txt = Some [''a''],
      frontend_en = Some (Parsed (JList [])), frontend_de = None\<rparr>
   = (\<lparr>backend_en = None, backend_de = None, keys_txt = Some [''a''],
      frontend_en = Some (Parsed (JList [])), frontend_de = None\<rparr>, Some TypeError)"
  by (simp add: process_frontend_def load_en_def read_keys_def py_strip_def is_space_def
      key_step_def set_nested_def get_nested_def)

lemma set_loop_not_dict:
  "\<not> is_dict data \<Longrightarrow> set_loop data p ps v = Inr x \<Longrightarrow>
   x = data \<and> set_loop data p ps v' = Inr data"
  by (cases data; cases ps) (auto split: if_splits)

lemma set_dict_fixed_present:
  "set_dict d p ps v = d \<Longrightarrow> path_value (JDict d) (p # ps) \<noteq> None"
  using path_value_set_dict [of d p ps v] by (auto simp del: path_value.simps)

lemma settled_after_set:
  "set_nested en k v = Inr en' \<Longrightarrow> set_nested en' k v' = Inr en'"
proof -
  assume run: "set_nested en k v = Inr en'"
  obtain p ps where sp: "split_dot k = p # ps"
    using split_dot_Cons by blast
  show ?thesis
  proof (cases en)
    case (JDict d)
    with run sp have en': "en' = JDict (set_dict d p ps v)"
      by (simp add: set_nested_dict)
    have "path_value (JDict (set_dict d p ps v)) (p # ps) \<noteq> None"
      unfolding path_value_set_dict by simp
    then have "set_dict (set_dict d p ps v) p ps v' = set_dict d p ps v"
      by (rule set_dict_present)
    with en' sp show ?thesis
      by (simp add: set_nested_dict)
  qed (use run sp set_loop_not_dict [of en p ps v en' v'] in \<open>simp_all add: set_nested_def\<close>)
qed

lemma settled_kept:
  "set_nested en k v = Inr en \<Longrightarrow> set_nested en q w = Inr en' \<Longrightarrow>
   set_nested en' k v' = Inr en'"
proof -
  assume fixed: "set_nested en k v = Inr en" and run: "set_nested en q w = Inr en'"
  obtain p ps where sp: "split_dot k = p # ps"
    using split_dot_Cons by blast
  obtain p' ps' where sq: "split_dot q = p' # ps'"
    using split_dot_Cons by blast
  show ?thesis
  proof (cases en)
    case (JDict d)
    with fixed sp have "set_dict d p ps v = d"
      by (simp add: set_nested_dict)
    then have "path_value (JDict d) (p # ps) \<noteq> None"
      by (rule set_dict_fixed_present)
    then have "path_value (JDict (set_dict d p' ps' w)) (p # ps) \<noteq> None"
      by (rule set_dict_presence)
    then have "set_dict (set_dict d p' ps' w) p ps v' = set_dict d p' ps' w"
      by (rule set_dict_present)
    moreover from JDict run sq have "en' = JDict (set_dict d p' ps' w)"
      by (simp add: set_nested_dict)
    ultimately show ?thesis
      using sp by (simp add: set_nested_dict)
  qed (use fixed run sp sq set_loop_not_dict [of en p ps v en v']
        set_loop_not_dict [of en p' ps' w en' w] in \<open>simp_all add: set_nested_def\<close>)
qed

lemma settled_if_found:
  "get_nested en k \<noteq> JNull \<Longrightarrow> set_nested en k v = Inr en"
proof -
  assume found: "get_nested en k \<noteq> JNull"
  obtain p ps where sp: "split_dot k = p # ps"
    using split_dot_Cons by blast
  from found sp obtain d where d: "en = JDict d"
    by (cases en) (auto simp: get_nested_def)
  from found sp d have "path_value (JDict d) (p # ps) \<noteq> None"
    using get_loop_present [of en "p # ps"] by (simp add: get_nested_def)
  then have "set_dict d p ps v = d"
    by (rule set_dict_present)
  with sp d show ?thesis
    by (simp add: set_nested_dict)
qed

lemma key_step_Inr:
  assumes "key_step en (JDict e) k = Inr (en', de')"
  shows "(\<exists>e'. de' = JDict e') \<and>
     (en' = en \<and> get_nested en k \<noteq> JNull
      \<or> set_nested en k (JStr (display_name k)) = Inr en')"
proof (cases "get_nested en k = JNull")
  case True
  with assms obtain x where x: "set_nested en k (JStr (display_name k)) = Inr x"
    by (cases "set_nested en k (JStr (display_name k))") (auto simp: key_step_def Let_def)
  from set_nested_dict_ex [of e k "JStr (''[DE] '' @ display_name k)"] obtain e' where
    "set_nested (JDict e) k (JStr (''[DE] '' @ display_name k)) = Inr (JDict e')" ..
  with assms True x show ?thesis
    by (auto simp: key_step_def Let_def)
next
  case False
  show ?thesis
  proof (cases "get_nested en k")
    case (JStr s)
    from set_nested_dict_ex [of e k "JStr (''[DE] '' @ s)"] obtain e' where
      "set_nested (JDict e) k (JStr (''[DE] '' @ s)) = Inr (JDict e')" ..
    with assms JStr show ?thesis
      by (auto simp: key_step_def Let_def)
  qed (use assms False in \<open>auto simp: key_step_def Let_def\<close>)
qed

lemma key_step_settled:
  assumes "set_nested en k (JStr (display_name k)) = Inr en"
  shows "\<exists>e'. key_step en (JDict e) k = Inr (en, JDict e')"
proof (cases "get_nested en k = JNull")
  case True
  from set_nested_dict_ex [of e k "JStr (''[DE] '' @ display_name k)"] obtain e' where
    "set_nested (JDict e) k (JStr (''[DE] '' @ display_name k)) = Inr (JDict e')" ..
  with assms True show ?thesis
    by (simp add: key_step_def Let_def)
next
  case False
  show ?thesis
  proof (cases "get_nested en k")
    case (JStr s)
    from set_nested_dict_ex [of e k "JStr (''[DE] '' @ s)"] obtain e' where
      "set_nested (JDict e) k (JStr (''[DE] '' @ s)) = Inr (JDict e')" ..
    with JStr show ?thesis
      by (simp add: key_step_def Let_def)
  qed (use False in \<open>simp_all add: key_step_def Let_def\<close>)
qed

lemma process_keys_settles:
  "process_keys en (JDict e) keys = Inr (en1, de1) \<Longrightarrow>
   \<forall>k\<in>S. \<forall>v. set_nested en k v = Inr en \<Longrightarrow>
   \<forall>k\<in>S \<union> set keys. \<forall>v. set_nested en1 k v = Inr en1"
proof (induction keys arbitrary: en e S)
  case Nil
  then show ?case by simp
next
  case (Cons key keys)
  from Cons.prems(1) obtain en' de' where
    step: "key_step en (JDict e) key = Inr (en', de')"
    and rest: "process_keys en' de' keys = Inr (en1, de1)"
    by (cases "key_step en (JDict e) key") auto
  from key_step_Inr [OF step] obtain e' where de': "de' = JDict e'"
    and shape: "en' = en \<and> get_nested en key \<noteq> JNull
      \<or> set_nested en key (JStr (display_name key)) = Inr en'"
    by blast
  have key_ok: "set_nested en' key v = Inr en'" for v
    using shape settled_if_found [of en key v] settled_after_set [of en key _ en' v]
    by blast
  have kept: "set_nested en' k v = Inr en'" if "k \<in> S" for k v
    using shape that Cons.prems(2) settled_kept [of en k _ key _ en' v]
    by blast
  from key_ok kept have "\<forall>k\<in>insert key S. \<forall>v. set_nested en' k v = Inr en'"
    by blast
  from Cons.IH [OF rest [unfolded de'] this] show ?case
    by simp
qed

lemma process_keys_fixed:
  "\<forall>k\<in>set keys. \<forall>v. set_nested en k v = Inr en \<Longrightarrow>
   \<exists>e'. process_keys en (JDict e) keys = Inr (en, JDict e')"
proof (induction keys arbitrary: e)
  case Nil
  show ?case by simp
next
  case (Cons key keys)
  from Cons.prems have "set_nested en key (JStr (display_name key)) = Inr en"
    by simp
  from key_step_settled [OF this, of e] obtain e1 where
    step: "key_step en (JDict e) key = Inr (en, JDict e1)" ..
  from Cons.prems have "\<forall>k\<in>set keys. \<forall>v. set_nested en k v = Inr en"
    by simp
  from Cons.IH [OF this, of e1] obtain e' where
    "process_keys en (JDict e1) keys = Inr (en, JDict e')" ..
  with step show ?case by simp
qed

text \<open>
  C4. When a run of \<open>process_frontend\<close> has ended normally, a second run on the files it
  left (the same key list, the source tree the first run wrote) ends normally too and
  leaves the source-tree file as the first run wrote it: no value of the source tree is
  changed, added or removed. The reason is \<open>process_keys_fixed\<close>: after the first run
  every key of the list is in place, and on a tree with every key in place the loop writes
  nothing; whether a key is in place is decided by lookups alone.
\<close>

theorem frontend_second_run:
  assumes "process_frontend fs = (fs1, None)"
  shows "\<exists>fs2. process_frontend fs1 = (fs2, None) \<and> frontend_en fs2 = frontend_en fs1"
proof (cases "keys_txt fs")
  case None
  with assms show ?thesis
    by (auto simp: process_frontend_def)
next
  case (Some lines)
  with assms obtain en1 de1 where
    run: "process_keys (load_en fs) (JDict []) (read_keys lines) = Inr (en1, de1)"
    and fs1: "fs1 = fs\<lparr>frontend_en := Some (Parsed en1), frontend_de := Some (Parsed de1)\<rparr>"
    by (auto simp: process_frontend_def split: sum.splits)
  from process_keys_settles [OF run, of "{}"]
  have "\<forall>k\<in>set (read_keys lines). \<forall>v. set_nested en1 k v = Inr en1"
    by simp
  from process_keys_fixed [OF this, of "[]"] obtain e' where
    "process_keys en1 (JDict []) (read_keys lines) = Inr (en1, JDict e')" ..
  with Some fs1 show ?thesis
    by (simp add: process_frontend_def)
qed

theorem frontend_second_run_witness:
  "process_frontend
     \<lparr>backend_en = None, backend_de = None, keys_txt = Some [''home.title''],
      frontend_en = None, frontend_de = None\<rparr>
   = (\<lparr>backend_en = None, backend_de = None, keys_txt = Some [''home.title''],
      frontend_en = Some (Parsed (JDict [(''home'', JDict [(''title'', JStr ''Title'')])])),
      frontend_de = Some (Parsed (JDict [(''home'', JDict [(''title'', JStr ''[DE] Title'')])]))\<rparr>,
      None)
   \<and> (\<exists>fs2. process_frontend
          \<lparr>backend_en = None, backend_de = None, keys_txt = Some [''home.title''],
           frontend_en = Some (Parsed (JDict [(''home'', JDict [(''title'', JStr ''Title'')])])),
           frontend_de = Some (Parsed (JDict [(''home'',
                                 JDict [(''title'', JStr ''[DE] Title'')])]))\<rparr>
         = (fs2, None)
       \<and> frontend_en fs2
           = Some (Parsed (JDict [(''home'', JDict [(''title'', JStr ''Title'')])])))"
proof -
  have "display_name ''home.title'' = ''Title''"
    by code_simp
  then have first: "process_frontend
     \<lparr>backend_en = None, backend_de = None, keys_txt = Some [''home.title''],
      frontend_en = None, frontend_de = None\<rparr>
   = (\<lparr>backend_en = None, backend_de = None, keys_txt = Some [''home.title''],
      frontend_en = Some (Parsed (JDict [(''home'', JDict [(''title'', JStr ''Title'')])])),
      frontend_de = Some (Parsed (JDict [(''home'', JDict [(''title'', JStr ''[DE] Title'')])]))\<rparr>,
      None)"
    by (simp add: process_frontend_def load_en_def read_keys_def py_strip_def is_space_def
        key_step_def Let_def set_nested_def get_nested_def)
  from frontend_second_run [OF first] first show ?thesis
    by simp
qed

lemma process_keys_dict_total:
  "\<exists>d' e'. process_keys (JDict d) (JDict e) keys = Inr (JDict d', JDict e')"
proof (induction keys arbitrary: d e)
  case Nil
  show ?case by simp
next
  case (Cons key keys)
  from key_step_dict [of d e key] obtain d1 e1 where
    "key_step (JDict d) (JDict e) key = Inr (JDict d1, JDict e1)"
    by blast
  moreover from Cons.IH [of d1 e1] obtain d' e' where
    "process_keys (JDict d1) (JDict e1) keys = Inr (JDict d', JDict e')"
    by blast
  ultimately show ?case by simp
qed

lemma frontend_mapping_tree_total:
  "is_dict (load_en fs) \<Longrightarrow> \<exists>fs'. process_frontend fs = (fs', None)"
proof -
  assume "is_dict (load_en fs)"
  then obtain d where d: "load_en fs = JDict d"
    by (auto simp: is_dict_conv)
  show ?thesis
  proof (cases "keys_txt fs")
    case None
    then show ?thesis by (simp add: process_frontend_def)
  next
    case (Some lines)
    from process_keys_dict_total [of d "[]" "read_keys lines"] obtain d' e' where
      "process_keys (JDict d) (JDict []) (read_keys lines) = Inr (JDict d', JDict e')"
      by blast
    with Some d show ?thesis by (simp add: process_frontend_def)
  qed
qed

end
